theory Spec2Isabelle
  imports Main "HOL-Library.AList"
begin

section \<open>Python strings\<close>

text \<open>
  A Python \<open>str\<close> is modelled as a \<open>string\<close>, one \<open>char\<close> per code point; the
  model covers the code points below 256. \<open>isspace\<close> is Python's \<open>str.isspace\<close> on
  one such code point: tab, line feed, vertical tab, form feed, carriage return, the
  four separators 28 to 31, space, next-line (133) and no-break space (160).
\<close>

definition isspace :: "char \<Rightarrow> bool" where
  "isspace c = (of_char c \<in> {9, 10, 11, 12, 13, 28, 29, 30, 31, 32, 133, 160 :: nat})"

text \<open>\<open>s.strip()\<close>: drop the leading and the trailing whitespace.\<close>

definition py_strip :: "string \<Rightarrow> string" where
  "py_strip s = rev (dropWhile isspace (rev (dropWhile isspace s)))"

text \<open>
  A slice bound of \<open>s[i:j]\<close>: a negative bound counts from the end, and the result is
  clamped to \<open>0 .. len(s)\<close>.
\<close>

definition slice_bound :: "nat \<Rightarrow> int \<Rightarrow> nat" where
  "slice_bound n i = (if i < 0 then nat (i + int n) else min (nat i) n)"

definition py_slice :: "string \<Rightarrow> int \<Rightarrow> int \<Rightarrow> string" where
  "py_slice s i j =
     (let a = slice_bound (length s) i; b = slice_bound (length s) j
      in take (b - a) (drop a s))"

text \<open>
  \<open>s.rfind(sub, start, end)\<close>: the bounds are adjusted as for a slice, except that
  \<open>start\<close> is not clamped to \<open>len(s)\<close>; the result is the highest index \<open>i\<close> with
  \<open>start \<le> i\<close> and \<open>i + len(sub) \<le> end\<close> at which \<open>sub\<close> occurs, and \<open>-1\<close> when there
  is none.
\<close>

definition rfind_start :: "nat \<Rightarrow> int \<Rightarrow> int" where
  "rfind_start n i = (if i < 0 then max 0 (i + int n) else i)"

definition occurs_at :: "string \<Rightarrow> string \<Rightarrow> int \<Rightarrow> bool" where
  "occurs_at s sub i = (take (length sub) (drop (nat i) s) = sub)"

definition py_rfind :: "string \<Rightarrow> string \<Rightarrow> int \<Rightarrow> int \<Rightarrow> int" where
  "py_rfind s sub start end =
     (let a = rfind_start (length s) start;
          b = int (slice_bound (length s) end)
      in case List.find (occurs_at s sub) (rev [a .. b - int (length sub)]) of
           None \<Rightarrow> - 1
         | Some i \<Rightarrow> i)"

section \<open>The chunker\<close>

text \<open>Exceptions, each with its message.\<close>

datatype error =
  ValueError string | IndexError string | AttributeError string | FileNotFoundError string |
  ExternalError string

text \<open>The dataclass \<open>Chunk\<close>; the metadata dictionary keeps its insertion order.\<close>

record chunk =
  content :: string
  chunk_id :: int
  source :: string
  start_char :: int
  end_char :: int
  metadata :: "(string \<times> int) list"

record text_chunker =
  chunk_size :: int
  chunk_overlap :: int

text \<open>\<open>TextChunker.__init__\<close>: refuses an overlap that is not below the chunk size.\<close>

definition TextChunker_init :: "int \<Rightarrow> int \<Rightarrow> error + text_chunker" where
  "TextChunker_init csize overlap =
     (if overlap \<ge> csize then Inl (ValueError ''chunk_overlap must be less than chunk_size'')
      else Inr \<lparr>chunk_size = csize, chunk_overlap = overlap\<rparr>)"

text \<open>The configurations the specification calls valid.\<close>

definition valid_config :: "text_chunker \<Rightarrow> bool" where
  "valid_config self =
     (0 < chunk_size self \<and> 0 \<le> chunk_overlap self \<and> chunk_overlap self < chunk_size self)"

definition break_chars :: "string list" where
  "break_chars =
     [[CHR 0x0A, CHR 0x0A], [CHR 0x0A], ''. '', ''! '', ''? '', '', '']"

text \<open>
  The \<open>for break_char in [...]\<close> loop of \<open>chunk_text\<close>: the first delimiter whose last
  occurrence in the window lies beyond the midpoint decides the break; without one the
  window's end stays.
\<close>

fun find_break :: "text_chunker \<Rightarrow> string \<Rightarrow> int \<Rightarrow> int \<Rightarrow> string list \<Rightarrow> int" where
  "find_break self text start end [] = end"
| "find_break self text start end (break_char # rest) =
     (let last_break = py_rfind text break_char start end
      in if last_break > start + chunk_size self div 2
         then last_break + int (length break_char)
         else find_break self text start end rest)"

text \<open>The end position of the chunk that begins at \<open>start\<close> (lines 57 to 68).\<close>

definition chunk_end :: "text_chunker \<Rightarrow> string \<Rightarrow> int \<Rightarrow> int" where
  "chunk_end self text start =
     (let end = min (start + chunk_size self) (int (length text))
      in if end < int (length text) then find_break self text start end break_chars
         else end)"

definition new_chunk :: "string \<Rightarrow> int \<Rightarrow> string \<Rightarrow> int \<Rightarrow> int \<Rightarrow> chunk" where
  "new_chunk chunk_content cid src start end =
     \<lparr>content = chunk_content, chunk_id = cid, source = src,
      start_char = start, end_char = end,
      metadata = [(''chunk_size'', int (length chunk_content)), (''total_chunks'', - 1)]\<rparr>"

text \<open>
  The \<open>while start < len(text)\<close> loop. It need not terminate, so it is a partial
  function into \<open>option\<close>: \<open>None\<close> is the loop that runs forever. The loop's second
  exit tests \<open>start >= len(text) or start == end - self.chunk_overlap and
  end == len(text)\<close> right after the assignment \<open>start = end - self.chunk_overlap\<close>.
\<close>

partial_function (option) chunk_loop ::
  "text_chunker \<Rightarrow> string \<Rightarrow> string \<Rightarrow> int \<Rightarrow> int \<Rightarrow> chunk list \<Rightarrow> chunk list option"
where
  "chunk_loop self text src start cid chunks =
     (if start < int (length text) then
        (let end = chunk_end self text start;
             chunk_content = py_strip (py_slice text start end);
             chunks' = (if chunk_content \<noteq> []
                        then chunks @ [new_chunk chunk_content cid src start end]
                        else chunks);
             cid' = (if chunk_content \<noteq> [] then cid + 1 else cid);
             start' = end - chunk_overlap self
         in if start' \<ge> int (length text)
               \<or> (start' = end - chunk_overlap self \<and> end = int (length text))
            then Some chunks'
            else chunk_loop self text src start' cid' chunks')
      else Some chunks)"

declare chunk_loop.simps [code]

text \<open>The final pass that writes the number of chunks into every chunk's metadata.\<close>

definition set_total :: "int \<Rightarrow> chunk \<Rightarrow> chunk" where
  "set_total n c = c\<lparr>metadata := AList.update ''total_chunks'' n (metadata c)\<rparr>"

definition chunk_text :: "text_chunker \<Rightarrow> string \<Rightarrow> string \<Rightarrow> chunk list option" where
  "chunk_text self text src =
     (if text = [] \<or> py_strip text = [] then Some []
      else map_option (\<lambda>chunks. map (set_total (int (length chunks))) chunks)
             (chunk_loop self (py_strip text) src 0 0 []))"

section \<open>The embedder\<close>

text \<open>
  The sentence-transformer model is an external capability: \<open>encode_one\<close> is
  \<open>model.encode(text).tolist()\<close>, \<open>encode_many\<close> is the list of the rows of
  \<open>model.encode(texts)\<close>. Either may raise. The components of a vector are floats that
  the program only passes on, so their type is left open.
\<close>

record 'v embedder =
  model_name :: string
  encode_one :: "string \<Rightarrow> error + 'v list"
  encode_many :: "string list \<Rightarrow> error + 'v list list"
  dimension :: int

text \<open>The test \<open>text and text.strip()\<close>.\<close>

definition nonblank :: "string \<Rightarrow> bool" where
  "nonblank t = (t \<noteq> [] \<and> py_strip t \<noteq> [])"


text \<open>
  The loop \<open>for i, idx in enumerate(valid_indices): result[idx] = embeddings[i].tolist()\<close>;
  an index outside \<open>embeddings\<close> or outside \<open>result\<close> raises \<open>IndexError\<close>.
\<close>

fun scatter :: "(nat \<times> nat) list \<Rightarrow> 'v list list \<Rightarrow> 'v list list \<Rightarrow> error + 'v list list" where
  "scatter [] embeddings result = Inr result"
| "scatter ((i, idx) # rest) embeddings result =
     (if i < length embeddings
      then (if idx < length result
            then scatter rest embeddings (result[idx := embeddings ! i])
            else Inl (IndexError ''list assignment index out of range''))
      else Inl (IndexError ''index is out of bounds''))"

definition embed_batch :: "'v embedder \<Rightarrow> string list \<Rightarrow> error + 'v list list" where
  "embed_batch self texts =
     (if texts = [] then Inr []
      else
        let valid = filter (\<lambda>(i, t). nonblank t) (List.enumerate 0 texts);
            valid_texts = map snd valid;
            valid_indices = map fst valid
        in if valid_texts = [] then Inr (map (\<lambda>_. []) texts)
           else (case encode_many self valid_texts of
                   Inl e \<Rightarrow> Inl e
                 | Inr embeddings \<Rightarrow>
                     scatter (List.enumerate 0 valid_indices) embeddings (map (\<lambda>_. []) texts)))"

section \<open>The vector store\<close>

text \<open>\<open>str(n)\<close> for an integer, as an f-string prints it.\<close>

fun str_nat :: "nat \<Rightarrow> string" where
  "str_nat n =
     (if n < 10 then [char_of (48 + n)] else str_nat (n div 10) @ [char_of (48 + n mod 10)])"

definition str_int :: "int \<Rightarrow> string" where
  "str_int i = (if i < 0 then ''-'' @ str_nat (nat (- i)) else str_nat (nat i))"


text \<open>A value of a metadata dictionary.\<close>

datatype meta_value = MStr string | MInt int

text \<open>One record of an upsert: \<open>{"id", "vector", "meta", "filter"}\<close>.\<close>

record 'f vector_record =
  rec_id :: string
  rec_vector :: "'f list"
  rec_meta :: "(string \<times> meta_value) list"
  rec_filter :: "(string \<times> string) list"

datatype precision = INT8D

text \<open>An element of the answer of \<open>list_indexes()\<close>: a bare name or a dictionary.\<close>

datatype index_entry = IndexName string | IndexDict "(string \<times> string) list"

record 'f query_params =
  q_vector :: "'f list"
  q_top_k :: int
  q_ef :: int
  q_filter :: "string option"

text \<open>
  An element of the answer of \<open>index.query\<close>: a dictionary whose entries \<open>id\<close>,
  \<open>similarity\<close> and \<open>meta\<close> may be missing; \<open>meta\<close> is a dictionary whose entries
  \<open>content\<close> and \<open>source\<close> may be missing.
\<close>

record raw_meta =
  meta_content :: "string option"
  meta_source :: "string option"
  meta_rest :: "(string \<times> meta_value) list"

record 'f raw_item =
  item_id :: "string option"
  item_similarity :: "'f option"
  item_meta :: "raw_meta option"

text \<open>
  The Endee client and its index handles are external. Each call takes the state \<open>'w\<close>
  of the world outside the program and returns an exception or a result, and the next
  state of the world. \<open>'h\<close> is the type of index handles, \<open>'f\<close> the type of floats,
  which the program only passes on.
\<close>

record ('w, 'h, 'f) endee =
  client_list_indexes :: "'w \<Rightarrow> (error + index_entry list) \<times> 'w"
  client_delete_index :: "string \<Rightarrow> 'w \<Rightarrow> (error + unit) \<times> 'w"
  client_get_index :: "string \<Rightarrow> 'w \<Rightarrow> (error + 'h) \<times> 'w"
  client_create_index :: "string \<Rightarrow> int \<Rightarrow> string \<Rightarrow> precision \<Rightarrow> 'w \<Rightarrow> (error + unit) \<times> 'w"
  index_upsert :: "'h \<Rightarrow> 'f vector_record list \<Rightarrow> 'w \<Rightarrow> (error + unit) \<times> 'w"
  index_query :: "'h \<Rightarrow> 'f query_params \<Rightarrow> 'w \<Rightarrow> (error + 'f raw_item list) \<times> 'w"

text \<open>\<open>EndeeVectorStore\<close>; \<open>cached_index\<close> is the attribute \<open>_index\<close>.\<close>

record ('w, 'h, 'f) vector_store =
  client :: "('w, 'h, 'f) endee"
  index_name :: string
  index_dimension :: int
  cached_index :: "'h option"


text \<open>
  Lines 78 to 85 of \<open>create_index\<close>: whether the index name is in the listing. When
  the first element is a dictionary every element is asked for its \<open>name\<close>, and an
  element that is a bare name raises \<open>AttributeError\<close>.
\<close>

fun is_dict :: "index_entry \<Rightarrow> bool" where
  "is_dict (IndexDict _) = True"
| "is_dict (IndexName _) = False"

fun dict_name :: "index_entry \<Rightarrow> string option" where
  "dict_name (IndexDict d) = map_of d ''name''"
| "dict_name (IndexName _) = None"

definition index_listed :: "string \<Rightarrow> index_entry list \<Rightarrow> error + bool" where
  "index_listed name existing_indexes =
     (case existing_indexes of
        [] \<Rightarrow> Inr False
      | IndexDict _ # _ \<Rightarrow>
          (if list_all is_dict existing_indexes
           then Inr (Some name \<in> set (map dict_name existing_indexes))
           else Inl (AttributeError ''str object has no attribute get''))
      | IndexName _ # _ \<Rightarrow> Inr (IndexName name \<in> set existing_indexes))"

definition create_index ::
  "('w, 'h, 'f) vector_store \<Rightarrow> bool \<Rightarrow> 'w \<Rightarrow> (error + unit) \<times> ('w, 'h, 'f) vector_store \<times> 'w"
where
  "create_index self recreate w =
     (let (index_exists, w1) =
            (case client_list_indexes (client self) w of
               (Inl e, w') \<Rightarrow> (False, w')
             | (Inr existing_indexes, w') \<Rightarrow>
                 (case index_listed (index_name self) existing_indexes of
                    Inl e \<Rightarrow> (False, w')
                  | Inr b \<Rightarrow> (b, w')))
      in if index_exists \<and> \<not> recreate then
           (case client_get_index (client self) (index_name self) w1 of
              (Inl e, w2) \<Rightarrow> (Inl e, self, w2)
            | (Inr h, w2) \<Rightarrow> (Inr (), self\<lparr>cached_index := Some h\<rparr>, w2))
         else
           (case (if index_exists then client_delete_index (client self) (index_name self) w1
                  else (Inr (), w1)) of
              (Inl e, w2) \<Rightarrow> (Inl e, self, w2)
            | (Inr _, w2) \<Rightarrow>
                (case client_create_index (client self) (index_name self)
                        (index_dimension self) ''cosine'' INT8D w2 of
                   (Inl e, w3) \<Rightarrow> (Inl e, self, w3)
                 | (Inr _, w3) \<Rightarrow>
                     (case client_get_index (client self) (index_name self) w3 of
                        (Inl e, w4) \<Rightarrow> (Inl e, self, w4)
                      | (Inr h, w4) \<Rightarrow> (Inr (), self\<lparr>cached_index := Some h\<rparr>, w4)))))"

text \<open>\<open>_get_index\<close>: the cached handle, resolved through the client when there is none.\<close>

definition store_get_index ::
  "('w, 'h, 'f) vector_store \<Rightarrow> 'w \<Rightarrow> (error + 'h) \<times> ('w, 'h, 'f) vector_store \<times> 'w"
where
  "store_get_index self w =
     (case cached_index self of
        Some h \<Rightarrow> (Inr h, self, w)
      | None \<Rightarrow>
          (case client_get_index (client self) (index_name self) w of
             (Inl e, w') \<Rightarrow> (Inl e, self, w')
           | (Inr h, w') \<Rightarrow> (Inr h, self\<lparr>cached_index := Some h\<rparr>, w')))"

definition content_preview :: "chunk \<Rightarrow> string" where
  "content_preview c =
     (if length (content c) > 200 then take 200 (content c) @ ''...'' else content c)"

text \<open>The record built for one chunk and its embedding (lines 143 to 163).\<close>

definition make_record :: "chunk \<Rightarrow> 'f list \<Rightarrow> 'f vector_record" where
  "make_record c embedding =
     \<lparr>rec_id = source c @ ''_chunk_'' @ str_int (chunk_id c),
      rec_vector = embedding,
      rec_meta =
        [(''source'', MStr (source c)), (''chunk_id'', MInt (chunk_id c)),
         (''content'', MStr (content c)), (''content_preview'', MStr (content_preview c)),
         (''start_char'', MInt (start_char c)), (''end_char'', MInt (end_char c))],
      rec_filter = [(''source'', source c)]\<rparr>"

text \<open>
  The loop \<open>for i in range(0, len(vectors), batch_size)\<close>, on the records not yet
  sent. Beside the count it returns the batches it passed to \<open>index.upsert\<close>, in
  order, the failed one included: the calls the method makes to the external store.
\<close>

function upsert_batches ::
  "('w, 'h, 'f) endee \<Rightarrow> 'h \<Rightarrow> 'f vector_record list \<Rightarrow> int \<Rightarrow> 'w \<Rightarrow>
     (error + int) \<times> 'f vector_record list list \<times> 'w"
where
  "upsert_batches cl index vectors total_upserted w =
     (if vectors = [] then (Inr total_upserted, [], w)
      else
        (case index_upsert cl index (take 100 vectors) w of
           (Inl e, w') \<Rightarrow> (Inl e, [take 100 vectors], w')
         | (Inr _, w') \<Rightarrow>
             (case upsert_batches cl index (drop 100 vectors)
                     (total_upserted + int (length (take 100 vectors))) w' of
                (r, sent, w'') \<Rightarrow> (r, take 100 vectors # sent, w''))))"
  by pat_completeness auto
termination
  by (relation "measure (\<lambda>(cl, index, vectors, total_upserted, w). length vectors)") auto

declare upsert_batches.simps [simp del]

text \<open>
  The world after the batches have been sent to the index one after the other, each
  send starting from the world the one before has left.
\<close>

definition world_after ::
  "('w, 'h, 'f) endee \<Rightarrow> 'h \<Rightarrow> 'f vector_record list list \<Rightarrow> 'w \<Rightarrow> 'w"
where
  "world_after cl index batches w = foldl (\<lambda>w' batch. snd (index_upsert cl index batch w')) w batches"

definition upsert_chunks ::
  "('w, 'h, 'f) vector_store \<Rightarrow> chunk list \<Rightarrow> 'f list list \<Rightarrow> 'w \<Rightarrow>
     (error + int) \<times> 'f vector_record list list \<times> ('w, 'h, 'f) vector_store \<times> 'w"
where
  "upsert_chunks self chunks embeddings w =
     (if length chunks \<noteq> length embeddings
      then (Inl (ValueError ''Number of chunks and embeddings must match''), [], self, w)
      else if chunks = [] then (Inr 0, [], self, w)
      else
        (case store_get_index self w of
           (Inl e, self', w') \<Rightarrow> (Inl e, [], self', w')
         | (Inr index, self', w') \<Rightarrow>
             (case upsert_batches (client self') index
                     (map (\<lambda>(chunk, embedding). make_record chunk embedding)
                        (zip chunks embeddings)) 0 w' of
                (r, sent, w'') \<Rightarrow> (r, sent, self', w''))))"



text \<open>
  \<open>delete_index\<close>: the handle is forgotten after the client's call has returned; an
  exception of the call is caught and printed.
\<close>

definition delete_index ::
  "('w, 'h, 'f) vector_store \<Rightarrow> 'w \<Rightarrow> (error + unit) \<times> ('w, 'h, 'f) vector_store \<times> 'w"
where
  "delete_index self w =
     (case client_delete_index (client self) (index_name self) w of
        (Inr _, w') \<Rightarrow> (Inr (), self\<lparr>cached_index := None\<rparr>, w')
      | (Inl e, w') \<Rightarrow> (Inr (), self, w'))"

section \<open>The document loader\<close>

text \<open>The dataclass \<open>Document\<close>.\<close>

record document =
  doc_content :: string
  doc_source :: string
  doc_metadata :: "(string \<times> meta_value) list"

text \<open>
  The file system is external. A path under a directory is described by what the loader
  asks of it: its name and suffix, whether it exists and is a regular file, its
  absolute path and size, what reading it as UTF-8 text gives, and what the PDF reader
  gives for its pages. A directory path is missing, not a directory, or a directory
  with the paths that \<open>rglob("*")\<close> lists.
\<close>

record file_entry =
  entry_name :: string
  entry_suffix :: string
  entry_exists :: bool
  entry_is_file :: bool
  entry_path :: string
  entry_size :: int
  entry_text :: "error + string"
  entry_pdf_pages :: "error + string list"

datatype dir_state = Missing | NotADirectory | Directory "file_entry list"

type_synonym filesystem = "string \<Rightarrow> dir_state"

text \<open>\<open>str.lower()\<close> on the code points below 256.\<close>

definition lower_char :: "char \<Rightarrow> char" where
  "lower_char c =
     (let n = (of_char c :: nat)
      in if (65 \<le> n \<and> n \<le> 90) \<or> (192 \<le> n \<and> n \<le> 222 \<and> n \<noteq> 215)
         then char_of (n + 32) else c)"

definition py_lower :: "string \<Rightarrow> string" where
  "py_lower s = map lower_char s"

text \<open>\<open>sep.join(parts)\<close>.\<close>

fun py_join :: "string \<Rightarrow> string list \<Rightarrow> string" where
  "py_join sep [] = []"
| "py_join sep [x] = x"
| "py_join sep (x # y # ys) = x @ sep @ py_join sep (y # ys)"

definition LF :: string where
  "LF = [CHR 0x0A]"

definition load_pdf :: "file_entry \<Rightarrow> error + string" where
  "load_pdf entry =
     (case entry_pdf_pages entry of
        Inl e \<Rightarrow> Inl e
      | Inr pages \<Rightarrow> Inr (py_join (LF @ LF) (filter (\<lambda>t. t \<noteq> []) pages)))"

definition load_text :: "file_entry \<Rightarrow> error + string" where
  "load_text entry = entry_text entry"

definition load_file :: "file_entry \<Rightarrow> error + document" where
  "load_file entry =
     (if \<not> entry_exists entry
      then Inl (FileNotFoundError (''File not found: '' @ entry_path entry))
      else
        let extension = py_lower (entry_suffix entry);
            loaded =
              (if extension = ''.pdf'' then load_pdf entry
               else if extension \<in> set [''.txt'', ''.md'', ''.markdown''] then load_text entry
               else Inl (ValueError (''Unsupported file type: '' @ extension)))
        in case loaded of
             Inl e \<Rightarrow> Inl e
           | Inr c \<Rightarrow>
               Inr \<lparr>doc_content = c, doc_source = entry_name entry,
                    doc_metadata =
                      [(''file_path'', MStr (entry_path entry)), (''file_type'', MStr extension),
                       (''file_size'', MInt (entry_size entry))]\<rparr>)"

definition SUPPORTED_EXTENSIONS :: "string list" where
  "SUPPORTED_EXTENSIONS = [''.pdf'', ''.txt'', ''.md'', ''.markdown'']"

text \<open>
  \<open>load_directory\<close>: a file that cannot be loaded is reported and left out.
\<close>

fun load_entries :: "file_entry list \<Rightarrow> document list" where
  "load_entries [] = []"
| "load_entries (file_path # rest) =
     (if entry_is_file file_path \<and> py_lower (entry_suffix file_path) \<in> set SUPPORTED_EXTENSIONS
      then (case load_file file_path of
              Inr doc \<Rightarrow> doc # load_entries rest
            | Inl e \<Rightarrow> load_entries rest)
      else load_entries rest)"

definition load_directory :: "filesystem \<Rightarrow> string \<Rightarrow> error + document list" where
  "load_directory fs directory_path =
     (case fs directory_path of
        Missing \<Rightarrow> Inl (FileNotFoundError (''Directory not found: '' @ directory_path))
      | NotADirectory \<Rightarrow> Inl (ValueError (''Not a directory: '' @ directory_path))
      | Directory entries \<Rightarrow> Inr (load_entries entries))"

text \<open>
  \<open>chunk_documents\<close>: the chunks of every document, in order; it has a result only
  when \<open>chunk_text\<close> has one for every document.
\<close>

fun chunk_documents :: "text_chunker \<Rightarrow> document list \<Rightarrow> chunk list option" where
  "chunk_documents self [] = Some []"
| "chunk_documents self (doc # rest) =
     (case chunk_text self (doc_content doc) (doc_source doc) of
        None \<Rightarrow> None
      | Some chunks \<Rightarrow> map_option (\<lambda>all_chunks. chunks @ all_chunks) (chunk_documents self rest))"

section \<open>The pipeline\<close>





datatype llm_type = Ollama | Gemini

text \<open>
  \<open>RAGPipeline\<close>. \<open>llm_type\<close> is the attribute \<open>_llm_type\<close> that \<open>_init_llm\<close> has set.
  The generation backends are external: \<open>ollama_generate model prompt\<close> is the POST
  to the local endpoint and the entry \<open>response\<close> of its JSON answer, if there is
  one; \<open>gemini_generate prompt\<close> is the text of \<open>generate_content(prompt)\<close>.
  \<open>format_3f\<close> is the float formatting \<open>{x:.3f}\<close>.
\<close>

record ('w, 'h, 'f) rag_pipeline =
  embedder :: "'f embedder"
  vector_store :: "('w, 'h, 'f) vector_store"
  llm_api_key :: "string option"
  llm_model :: string
  top_k :: int
  chunker :: text_chunker
  llm_type :: "llm_type option"
  ollama_generate :: "string \<Rightarrow> string \<Rightarrow> 'w \<Rightarrow> (error + string option) \<times> 'w"
  gemini_generate :: "string \<Rightarrow> 'w \<Rightarrow> (error + string) \<times> 'w"
  format_3f :: "'f \<Rightarrow> string"

text \<open>
  \<open>ingest_documents\<close>. The result is \<open>None\<close> when chunking does not terminate.
\<close>

definition ingest_documents ::
  "('w, 'h, 'f) rag_pipeline \<Rightarrow> filesystem \<Rightarrow> string \<Rightarrow> bool \<Rightarrow> 'w \<Rightarrow>
     ((error + int) \<times> ('w, 'h, 'f) rag_pipeline \<times> 'w) option"
where
  "ingest_documents self fs directory recreate_index w =
     (case load_directory fs directory of
        Inl e \<Rightarrow> Some (Inl e, self, w)
      | Inr documents \<Rightarrow>
          if documents = [] then Some (Inr 0, self, w)
          else
            (case chunk_documents (chunker self) documents of
               None \<Rightarrow> None
             | Some chunks \<Rightarrow>
                 (case embed_batch (embedder self) (map content chunks) of
                    Inl e \<Rightarrow> Some (Inl e, self, w)
                  | Inr embeddings \<Rightarrow>
                      (case create_index (vector_store self) recreate_index w of
                         (Inl e, store1, w1) \<Rightarrow> Some (Inl e, self\<lparr>vector_store := store1\<rparr>, w1)
                       | (Inr _, store1, w1) \<Rightarrow>
                           (case upsert_chunks store1 chunks embeddings w1 of
                              (num_stored, sent, store2, w2) \<Rightarrow>
                                Some (num_stored, self\<lparr>vector_store := store2\<rparr>, w2))))))"








text \<open>\<open>clear_index\<close>.\<close>

definition clear_index ::
  "('w, 'h, 'f) rag_pipeline \<Rightarrow> 'w \<Rightarrow> (error + unit) \<times> ('w, 'h, 'f) rag_pipeline \<times> 'w"
where
  "clear_index self w =
     (case delete_index (vector_store self) w of
        (r, store1, w1) \<Rightarrow> (r, self\<lparr>vector_store := store1\<rparr>, w1))"

section \<open>Example inputs\<close>

definition cfg_short :: text_chunker where
  "cfg_short = \<lparr>chunk_size = 20, chunk_overlap = 5\<rparr>"

definition doc_short :: string where
  "doc_short = ''  Sentence one. Sentence two. Sentence three. ''"

definition chunks_short :: "chunk list" where
  "chunks_short =
     [\<lparr>content = ''Sentence one.'', chunk_id = 0, source = ''s'', start_char = 0, end_char = 14,
       metadata = [(''chunk_size'', 13), (''total_chunks'', 3)]\<rparr>,
      \<lparr>content = ''one. Sentence two.'', chunk_id = 1, source = ''s'', start_char = 9,
       end_char = 28, metadata = [(''chunk_size'', 18), (''total_chunks'', 3)]\<rparr>,
      \<lparr>content = ''two. Sentence three.'', chunk_id = 2, source = ''s'', start_char = 23,
       end_char = 43, metadata = [(''chunk_size'', 20), (''total_chunks'', 3)]\<rparr>]"

text \<open>A text on which the loop never advances: a line feed at offset 6.\<close>

definition cfg_stuck :: text_chunker where
  "cfg_stuck = \<lparr>chunk_size = 10, chunk_overlap = 7\<rparr>"

definition doc_stuck :: string where
  "doc_stuck = ''aaaaaa'' @ [CHR 0x0A] @ ''aaaaaaaa''"

text \<open>A text on which the cursor moves backwards: delimiters at offsets 16, 17 and 19.\<close>

definition cfg_back :: text_chunker where
  "cfg_back = \<lparr>chunk_size = 30, chunk_overlap = 25\<rparr>"

definition doc_back :: string where
  "doc_back = ''aaaaaaaaaaaaaaaa'' @ [CHR 0x0A] @ ''. ! bbbbbbbbbbbb''"

definition embedder_demo :: "nat embedder" where
  "embedder_demo =
     \<lparr>model_name = ''demo'',
      encode_one = (\<lambda>t. Inr [length t, 1]),
      encode_many = (\<lambda>ts. Inr (map (\<lambda>t. [length t, 1]) ts)),
      dimension = 2\<rparr>"

definition texts_demo :: "string list" where
  "texts_demo = [[], ''hello world'', ''  '', ''abc'']"

text \<open>
  A world that counts the records it has received; \<open>client_up\<close> answers every call,
  \<open>client_down\<close> fails to resolve or delete an index.
\<close>

definition client_up :: "(nat, string, nat) endee" where
  "client_up =
     \<lparr>client_list_indexes = (\<lambda>w. (Inr [], w)),
      client_delete_index = (\<lambda>name w. (Inr (), w)),
      client_get_index = (\<lambda>name w. (Inr name, w)),
      client_create_index = (\<lambda>name d m p w. (Inr (), w)),
      index_upsert = (\<lambda>h batch w. (Inr (), w + length batch)),
      index_query = (\<lambda>h q w.
        (Inr [\<lparr>item_id = Some ''notes.txt_chunk_0'', item_similarity = Some 1,
               item_meta = Some \<lparr>meta_content = Some ''A hash table maps keys to values.'',
                                  meta_source = Some ''notes.txt'', meta_rest = []\<rparr>\<rparr>,
              \<lparr>item_id = Some ''trees.md_chunk_4'', item_similarity = None,
               item_meta = Some \<lparr>meta_content = Some ''A heap is a complete binary tree.'',
                                  meta_source = Some ''trees.md'', meta_rest = []\<rparr>\<rparr>], w))\<rparr>"

definition client_down :: "(nat, string, nat) endee" where
  "client_down =
     client_up
       \<lparr>client_delete_index := (\<lambda>name w. (Inl (ExternalError ''connection refused''), w)),
        client_get_index := (\<lambda>name w. (Inl (ExternalError ''connection refused''), w))\<rparr>"

definition store_up :: "(nat, string, nat) vector_store" where
  "store_up =
     \<lparr>client = client_up, index_name = ''cs_interview_docs'', index_dimension = 2,
      cached_index = None\<rparr>"

definition store_down :: "(nat, string, nat) vector_store" where
  "store_down = store_up\<lparr>client := client_down\<rparr>"

definition store_down_cached :: "(nat, string, nat) vector_store" where
  "store_down_cached = store_down\<lparr>cached_index := Some ''cs_interview_docs''\<rparr>"

definition embeddings_short :: "nat list list" where
  "embeddings_short = [[13, 1], [18, 1], [20, 1]]"

definition pipe_demo :: "(nat, string, nat) rag_pipeline" where
  "pipe_demo =
     \<lparr>embedder = embedder_demo, vector_store = store_up, llm_api_key = None,
      llm_model = ''gemini-2.0-flash'', top_k = 5,
      chunker = \<lparr>chunk_size = 1000, chunk_overlap = 200\<rparr>, llm_type = None,
      ollama_generate = (\<lambda>m p w. (Inl (ExternalError ''timed out''), w)),
      gemini_generate = (\<lambda>p w. (Inl (ExternalError ''quota exceeded''), w)),
      format_3f = (\<lambda>s. str_nat s @ ''.000'')\<rparr>"





definition fs_empty :: filesystem where
  "fs_empty = (\<lambda>p. if p = ''docs'' then Directory [] else Missing)"

section \<open>Properties of the string operations\<close>

lemma length_py_strip_le: "length (py_strip s) \<le> length s"
  unfolding py_strip_def
  by (metis length_rev length_dropWhile_le le_trans)

lemma dropWhile_rev_dropWhile:
  "dropWhile P (rev (dropWhile P (rev (dropWhile P s)))) = rev (dropWhile P (rev (dropWhile P s)))"
proof (cases "dropWhile P (rev (dropWhile P s)) = []")
  case True
  show ?thesis by (simp only: True) simp
next
  case False
  let ?t = "dropWhile P s"
  let ?u = "dropWhile P (rev ?t)"
  from False have t: "?t \<noteq> []" by (metis dropWhile.simps(1) rev.simps(1))
  have "\<exists>ys. rev ?t = ys @ ?u"
    by (metis takeWhile_dropWhile_id)
  then obtain ys where ys: "rev ?t = ys @ ?u" ..
  with False have "last ?u = last (rev ?t)" by (metis last_appendR)
  also have "\<dots> = hd ?t" using t by (simp add: last_rev)
  finally have "\<not> P (last ?u)" using t hd_dropWhile by metis
  then have "\<not> P (hd (rev ?u))" using False by (simp add: hd_rev)
  then show ?thesis using False by (cases "rev ?u") auto
qed

lemma py_strip_idem: "py_strip (py_strip s) = py_strip s"
  unfolding py_strip_def
  by (simp add: dropWhile_rev_dropWhile dropWhile_idem)

lemma find_Some_set: "List.find P xs = Some x \<Longrightarrow> x \<in> set xs \<and> P x"
  by (induction xs) (auto split: if_splits)

lemma py_rfind_cases:
  "py_rfind s sub a b = - 1 \<or>
   (rfind_start (length s) a \<le> py_rfind s sub a b \<and>
    py_rfind s sub a b + int (length sub) \<le> int (slice_bound (length s) b) \<and>
    occurs_at s sub (py_rfind s sub a b))"
proof (cases "List.find (occurs_at s sub)
                (rev [rfind_start (length s) a .. int (slice_bound (length s) b) - int (length sub)])")
  case None
  then show ?thesis by (simp add: py_rfind_def)
next
  case (Some i)
  from find_Some_set [OF Some]
  have "i \<in> set [rfind_start (length s) a .. int (slice_bound (length s) b) - int (length sub)]"
    and "occurs_at s sub i"
    by simp_all
  with Some show ?thesis by (simp add: py_rfind_def)
qed

lemma find_break_cases:
  "find_break self doc start e bcs = e \<or>
   (\<exists>bc \<in> set bcs. find_break self doc start e bcs = int (length bc) - 1 \<and> start + chunk_size self div 2 < - 1) \<or>
   (\<exists>bc \<in> set bcs. \<exists>lb. find_break self doc start e bcs = lb + int (length bc) \<and>
       start + chunk_size self div 2 < lb \<and> 
       rfind_start (length doc) start \<le> lb \<and>
       lb + int (length bc) \<le> int (slice_bound (length doc) e))"
proof (induction bcs)
  case Nil
  then show ?case by simp
next
  case (Cons bc bcs)
  show ?case
  proof (cases "py_rfind doc bc start e > start + chunk_size self div 2")
    case True
    then show ?thesis using py_rfind_cases [of doc bc start e]
      by (auto simp: Let_def)
  next
    case False
    then show ?thesis using Cons by (auto simp: Let_def)
  qed
qed

section \<open>Properties of the chunker\<close>

lemma slice_bound_diff:
  "e \<le> s + n \<Longrightarrow> 0 \<le> n \<Longrightarrow> (0 \<le> s \<longrightarrow> 0 \<le> e) \<Longrightarrow>
   int (slice_bound L e - slice_bound L s) \<le> n"
  unfolding slice_bound_def by (auto split: if_splits)

lemma break_chars_length: "bc \<in> set break_chars \<Longrightarrow> length bc \<le> 2 \<and> 0 < length bc"
  by (auto simp: break_chars_def)

lemma chunk_end_cases:
  "chunk_end self doc start = min (start + chunk_size self) (int (length doc)) \<or>
   (\<exists>bc \<in> set break_chars. chunk_end self doc start = int (length bc) - 1 \<and>
       start + chunk_size self div 2 < - 1) \<or>
   (\<exists>bc \<in> set break_chars. \<exists>lb. chunk_end self doc start = lb + int (length bc) \<and>
       min (start + chunk_size self) (int (length doc)) < int (length doc) \<and>
       start + chunk_size self div 2 < lb \<and>
       rfind_start (length doc) start \<le> lb \<and>
       lb + int (length bc) \<le>
         int (slice_bound (length doc) (min (start + chunk_size self) (int (length doc)))))"
proof (cases "min (start + chunk_size self) (int (length doc)) < int (length doc)")
  case True
  then have "chunk_end self doc start =
      find_break self doc start (min (start + chunk_size self) (int (length doc))) break_chars"
    by (simp only: chunk_end_def Let_def if_True)
  then show ?thesis
    using find_break_cases [of self doc start "min (start + chunk_size self) (int (length doc))" break_chars] True
    by presburger
next
  case False
  then show ?thesis by (simp add: chunk_end_def Let_def)
qed

lemma chunk_slice_length:
  assumes "0 < chunk_size self"
  shows "int (length (py_slice doc start (chunk_end self doc start))) \<le> chunk_size self"
proof -
  let ?L = "length doc"
  let ?n = "min (start + chunk_size self) (int ?L)"
  let ?E = "chunk_end self doc start"
  have len: "int (length (py_slice doc start ?E)) \<le> int (slice_bound ?L ?E - slice_bound ?L start)"
    by (simp add: py_slice_def Let_def)
  have naive: "int (slice_bound ?L ?n - slice_bound ?L start) \<le> chunk_size self"
    using assms by (intro slice_bound_diff) auto
  consider (keep) "?E = ?n"
    | (none) bc where "bc \<in> set break_chars" "?E = int (length bc) - 1"
    | (brk) bc lb where "bc \<in> set break_chars" "?E = lb + int (length bc)"
        "rfind_start ?L start \<le> lb" "lb + int (length bc) \<le> int (slice_bound ?L ?n)"
    using chunk_end_cases [of self doc start] by blast
  then have "int (slice_bound ?L ?E - slice_bound ?L start) \<le> chunk_size self"
  proof cases
    case keep
    then show ?thesis using naive by simp
  next
    case none
    then have "?E \<le> 1" "0 \<le> ?E" using break_chars_length [of bc] by auto
    then have "slice_bound ?L ?E \<le> 1" by (auto simp: slice_bound_def)
    then show ?thesis using assms by linarith
  next
    case brk
    then have "0 \<le> ?E" using break_chars_length [of bc] by (auto simp: rfind_start_def split: if_splits)
    moreover have "?E \<le> int (slice_bound ?L ?n)" using brk by simp
    ultimately have "slice_bound ?L ?E \<le> slice_bound ?L ?n"
      by (auto simp: slice_bound_def split: if_splits)
    then show ?thesis using naive by linarith
  qed
  with len show ?thesis by linarith
qed

lemma chunk_content_length:
  assumes "0 < chunk_size self"
  shows "int (length (py_strip (py_slice doc start (chunk_end self doc start)))) \<le> chunk_size self"
  using chunk_slice_length [OF assms, of doc start]
    length_py_strip_le [of "py_slice doc start (chunk_end self doc start)"]
  by linarith

text \<open>Invariant rule for the loop.\<close>

lemma chunk_loop_rule:
  assumes run: "chunk_loop self doc src start cid chunks = Some r"
    and init: "I start cid chunks"
    and fin: "\<And>start cid chunks. I start cid chunks \<Longrightarrow> \<not> start < int (length doc) \<Longrightarrow> Q chunks"
    and step: "\<And>start cid chunks e c chunks' cid'.
      I start cid chunks \<Longrightarrow> start < int (length doc) \<Longrightarrow>
      e = chunk_end self doc start \<Longrightarrow> c = py_strip (py_slice doc start e) \<Longrightarrow>
      chunks' = (if c \<noteq> [] then chunks @ [new_chunk c cid src start e] else chunks) \<Longrightarrow>
      cid' = (if c \<noteq> [] then cid + 1 else cid) \<Longrightarrow>
      (if e - chunk_overlap self \<ge> int (length doc) \<or> e = int (length doc)
       then Q chunks' else I (e - chunk_overlap self) cid' chunks')"
  shows "Q r"
proof -
  let ?P = "\<lambda>self' doc' src' start cid chunks r.
     self' = self \<and> doc' = doc \<and> src' = src \<and> I start cid chunks \<longrightarrow> Q r"
  have "?P self doc src start cid chunks r"
  proof (rule chunk_loop.raw_induct [where P = ?P, OF _ run])
    fix f self' doc' src' start cid chunks r
    assume IH: "\<And>self' doc' src' start cid chunks r.
        f self' doc' src' start cid chunks = Some r \<Longrightarrow>
        self' = self \<and> doc' = doc \<and> src' = src \<and> I start cid chunks \<longrightarrow> Q r"
    let ?E = "chunk_end self' doc' start"
    let ?c = "py_strip (py_slice doc' start ?E)"
    let ?chunks = "if ?c \<noteq> [] then chunks @ [new_chunk ?c cid src' start ?E] else chunks"
    let ?cid = "if ?c \<noteq> [] then cid + 1 else cid"
    assume eq: "(if start < int (length doc') then
        (let e = chunk_end self' doc' start;
             chunk_content = py_strip (py_slice doc' start e);
             chunks' = (if chunk_content \<noteq> []
                        then chunks @ [new_chunk chunk_content cid src' start e]
                        else chunks);
             cid' = (if chunk_content \<noteq> [] then cid + 1 else cid);
             start' = e - chunk_overlap self'
         in if start' \<ge> int (length doc')
               \<or> (start' = e - chunk_overlap self' \<and> e = int (length doc'))
            then Some chunks'
            else f self' doc' src' start' cid' chunks')
      else Some chunks) = Some r"
    show "self' = self \<and> doc' = doc \<and> src' = src \<and> I start cid chunks \<longrightarrow> Q r"
    proof
      assume a: "self' = self \<and> doc' = doc \<and> src' = src \<and> I start cid chunks"
      then have eqs: "self' = self" "doc' = doc" "src' = src" and I0: "I start cid chunks"
        by simp_all
      show "Q r"
      proof (cases "start < int (length doc')")
        case False
        with eq have "r = chunks" by simp
        with fin [OF I0] False eqs show ?thesis by simp
      next
        case True
        have nxt: "if ?E - chunk_overlap self' \<ge> int (length doc') \<or> ?E = int (length doc')
                   then Q ?chunks else I (?E - chunk_overlap self') ?cid ?chunks"
          unfolding eqs by (rule step [OF I0]) (use True eqs in simp_all)
        show ?thesis
        proof (cases "?E - chunk_overlap self' \<ge> int (length doc') \<or> ?E = int (length doc')")
          case True
          with eq \<open>start < int (length doc')\<close> have "r = ?chunks"
            by (simp add: Let_def split: if_splits)
          with nxt True show ?thesis by simp
        next
          case False
          with eq \<open>start < int (length doc')\<close>
          have "f self' doc' src' (?E - chunk_overlap self') ?cid ?chunks = Some r"
            by (simp add: Let_def split: if_splits)
          moreover from nxt False have "I (?E - chunk_overlap self') ?cid ?chunks" by simp
          ultimately show ?thesis using IH eqs by blast
        qed
      qed
    qed
  qed
  with init show ?thesis by blast
qed

lemma chunk_loop_chunks:
  assumes run: "chunk_loop self doc src start cid chunks = Some r"
    and init: "\<forall>c \<in> set chunks. P c"
    and new: "\<And>start cid. start < int (length doc) \<Longrightarrow>
      py_strip (py_slice doc start (chunk_end self doc start)) \<noteq> [] \<Longrightarrow>
      P (new_chunk (py_strip (py_slice doc start (chunk_end self doc start))) cid src start
           (chunk_end self doc start))"
  shows "\<forall>c \<in> set r. P c"
  by (rule chunk_loop_rule [OF run, where I = "\<lambda>_ _ chunks. \<forall>c \<in> set chunks. P c"
        and Q = "\<lambda>chunks. \<forall>c \<in> set chunks. P c"])
     (use init new in \<open>auto split: if_splits\<close>)

lemma chunk_text_cases:
  assumes "chunk_text self doc src = Some cs"
  shows "cs = [] \<or>
    (\<exists>r. chunk_loop self (py_strip doc) src 0 0 [] = Some r \<and>
         cs = map (set_total (int (length r))) r)"
  using assms by (auto simp: chunk_text_def split: if_splits)

lemma set_total_fields [simp]:
  "content (set_total n c) = content c"
  "chunk_id (set_total n c) = chunk_id c"
  "source (set_total n c) = source c"
  "start_char (set_total n c) = start_char c"
  "end_char (set_total n c) = end_char c"
  by (simp_all add: set_total_def)

lemma new_chunk_fields [simp]:
  "content (new_chunk c i s a b) = c"
  "chunk_id (new_chunk c i s a b) = i"
  "source (new_chunk c i s a b) = s"
  "start_char (new_chunk c i s a b) = a"
  "end_char (new_chunk c i s a b) = b"
  by (simp_all add: new_chunk_def)

lemma chunk_text_short: "chunk_text cfg_short doc_short ''s'' = Some chunks_short"
  by code_simp

lemma chunks_short_mem: "chunks_short ! 1 \<in> set chunks_short"
  by (simp add: chunks_short_def)

lemma cfg_short_valid: "valid_config cfg_short"
  by (simp add: valid_config_def cfg_short_def)

subsection \<open>Offsets and numbering of the chunks\<close>

lemma chunk_end_forward:
  assumes v: "valid_config self" and lt: "start < int (length doc)" and pos: "0 \<le> start"
  shows "start < chunk_end self doc start \<and> chunk_end self doc start \<le> int (length doc) \<and>
     (chunk_end self doc start \<noteq> int (length doc) \<longrightarrow>
        chunk_size self < int (length doc) \<and>
        - (chunk_size self div 2) - 1 \<le> chunk_end self doc start - chunk_overlap self)"
proof -
  let ?L = "int (length doc)"
  let ?n = "min (start + chunk_size self) ?L"
  let ?E = "chunk_end self doc start"
  from v have sz: "0 < chunk_size self" "0 \<le> chunk_overlap self"
    "chunk_overlap self < chunk_size self"
    by (simp_all add: valid_config_def)
  consider (keep) "?E = ?n"
    | (none) "start + chunk_size self div 2 < - 1"
    | (brk) bc lb where "bc \<in> set break_chars" "?E = lb + int (length bc)" "?n < ?L"
        "start + chunk_size self div 2 < lb" "lb + int (length bc) \<le> int (slice_bound (length doc) ?n)"
    using chunk_end_cases [of self doc start] by blast
  then show ?thesis
  proof cases
    case keep
    then show ?thesis using sz lt pos by auto
  next
    case none
    then show ?thesis using sz pos by linarith
  next
    case brk
    have "int (slice_bound (length doc) ?n) = ?n"
      using brk(3) sz pos by (auto simp: slice_bound_def)
    with brk have e: "?E \<le> ?n" "start + chunk_size self div 2 + 1 + int (length bc) \<le> ?E"
      by linarith+
    have "0 < length bc" using break_chars_length [OF brk(1)] by simp
    with e brk(3) sz pos show ?thesis by auto
  qed
qed

lemma chunk_end_negative:
  assumes v: "valid_config self" and neg: "start < 0"
    and big: "chunk_size self < int (length doc)"
    and low: "- (chunk_size self div 2) - 1 \<le> start"
  shows "chunk_end self doc start = start + chunk_size self \<and>
     py_slice doc start (chunk_end self doc start) = []"
proof -
  let ?L = "int (length doc)"
  let ?n = "min (start + chunk_size self) ?L"
  let ?E = "chunk_end self doc start"
  from v have sz: "0 < chunk_size self" "0 \<le> chunk_overlap self"
    "chunk_overlap self < chunk_size self"
    by (simp_all add: valid_config_def)
  have n: "?n = start + chunk_size self" "0 \<le> ?n" using neg big low sz by auto
  then have sb: "int (slice_bound (length doc) ?n) = start + chunk_size self"
    using neg big by (auto simp: slice_bound_def)
  have rs: "rfind_start (length doc) start = start + ?L"
    using neg big low sz by (auto simp: rfind_start_def)
  consider (keep) "?E = ?n"
    | (none) "start + chunk_size self div 2 < - 1"
    | (brk) bc lb where "bc \<in> set break_chars" "?E = lb + int (length bc)"
        "rfind_start (length doc) start \<le> lb" "lb + int (length bc) \<le> int (slice_bound (length doc) ?n)"
    using chunk_end_cases [of self doc start] by blast
  then have E: "?E = start + chunk_size self"
  proof cases
    case keep
    with n show ?thesis by simp
  next
    case none
    with low show ?thesis by linarith
  next
    case brk
    with sb rs big show ?thesis by linarith
  qed
  have "slice_bound (length doc) ?E \<le> slice_bound (length doc) start"
    using E neg big low sz by (auto simp: slice_bound_def)
  then have "py_slice doc start ?E = []" by (simp add: py_slice_def Let_def)
  with E show ?thesis by simp
qed

lemma chunk_loop_offsets:
  assumes v: "valid_config self"
    and run: "chunk_loop self doc src 0 cid0 [] = Some r"
  shows "\<forall>c \<in> set r. 0 \<le> start_char c \<and> start_char c < end_char c \<and>
     end_char c \<le> int (length doc)"
proof -
  let ?ok = "\<lambda>c. 0 \<le> start_char c \<and> start_char c < end_char c \<and> end_char c \<le> int (length doc)"
  let ?I = "\<lambda>start (cid::int) chunks.
     (start = 0 \<or> (chunk_size self < int (length doc) \<and> - (chunk_size self div 2) - 1 \<le> start)) \<and>
     (\<forall>c \<in> set chunks. ?ok c)"
  from v have sz: "0 < chunk_size self" "0 \<le> chunk_overlap self"
    "chunk_overlap self < chunk_size self"
    by (simp_all add: valid_config_def)
  show ?thesis
  proof (rule chunk_loop_rule [OF run, where I = ?I and Q = "\<lambda>chunks. \<forall>c \<in> set chunks. ?ok c"])
    show "?I 0 cid0 []" by simp
  next
    fix start cid chunks
    assume "?I start cid chunks"
    then show "\<forall>c \<in> set chunks. ?ok c" by simp
  next
    fix start cid chunks e c chunks' cid'
    assume I: "?I start cid chunks" and lt: "start < int (length doc)"
      and e: "e = chunk_end self doc start" and c: "c = py_strip (py_slice doc start e)"
      and chunks': "chunks' = (if c \<noteq> [] then chunks @ [new_chunk c cid src start e] else chunks)"
      and "cid' = (if c \<noteq> [] then cid + 1 else cid)"
    show "if int (length doc) \<le> e - chunk_overlap self \<or> e = int (length doc)
          then \<forall>c \<in> set chunks'. ?ok c else ?I (e - chunk_overlap self) cid' chunks'"
    proof (cases "start < 0")
      case True
      with I have big: "chunk_size self < int (length doc)"
        and low: "- (chunk_size self div 2) - 1 \<le> start" by auto
      have strip_Nil: "py_strip [] = []" by (simp add: py_strip_def)
      note n = chunk_end_negative [OF v True big low]
      from n [THEN conjunct1] n [THEN conjunct2] e c strip_Nil have "e = start + chunk_size self" "c = []" by simp_all
      with chunks' I big low sz show ?thesis by auto
    next
      case False
      then have pos: "0 \<le> start" by simp
      from chunk_end_forward [OF v lt pos] e
      have f: "start < e" "e \<le> int (length doc)"
        "e \<noteq> int (length doc) \<longrightarrow> chunk_size self < int (length doc) \<and>
           - (chunk_size self div 2) - 1 \<le> e - chunk_overlap self"
        by simp_all
      have "\<forall>c \<in> set chunks'. ?ok c" using chunks' I f pos by auto
      with f show ?thesis by auto
    qed
  qed
qed

lemma chunk_loop_chunk_id:
  assumes run: "chunk_loop self doc src 0 0 [] = Some r"
  shows "\<forall>i < length r. chunk_id (r ! i) = int i"
proof (rule chunk_loop_rule [OF run,
      where I = "\<lambda>start cid chunks. cid = int (length chunks) \<and>
                   (\<forall>i < length chunks. chunk_id (chunks ! i) = int i)"
        and Q = "\<lambda>chunks. \<forall>i < length chunks. chunk_id (chunks ! i) = int i"])
  show "0 = int (length ([] :: chunk list)) \<and>
      (\<forall>i < length ([] :: chunk list). chunk_id ([] ! i) = int i)"
    by simp
next
  fix start :: int and cid :: int and chunks :: "chunk list"
  assume "cid = int (length chunks) \<and> (\<forall>i < length chunks. chunk_id (chunks ! i) = int i)"
  then show "\<forall>i < length chunks. chunk_id (chunks ! i) = int i" by simp
next
  fix start cid chunks e c chunks' cid'
  assume I: "cid = int (length chunks) \<and> (\<forall>i < length chunks. chunk_id (chunks ! i) = int i)"
    and chunks': "chunks' = (if c \<noteq> [] then chunks @ [new_chunk c cid src start e] else chunks)"
    and cid': "cid' = (if c \<noteq> [] then cid + 1 else cid)"
  have "cid' = int (length chunks') \<and> (\<forall>i < length chunks'. chunk_id (chunks' ! i) = int i)"
    using I chunks' cid' by (auto simp: nth_append)
  then show "if int (length doc) \<le> e - chunk_overlap self \<or> e = int (length doc)
        then \<forall>i < length chunks'. chunk_id (chunks' ! i) = int i
        else cid' = int (length chunks') \<and> (\<forall>i < length chunks'. chunk_id (chunks' ! i) = int i)"
    by simp
qed

lemma chunk_text_chunk_id:
  assumes "chunk_text self doc src = Some cs" and "i < length cs"
  shows "chunk_id (cs ! i) = int i"
proof -
  from chunk_text_cases [OF assms(1)] assms(2)
  obtain r where run: "chunk_loop self (py_strip doc) src 0 0 [] = Some r"
    and cs: "cs = map (set_total (int (length r))) r"
    by auto
  from chunk_loop_chunk_id [OF run] cs assms(2) show ?thesis by simp
qed

subsection \<open>Configurations whose overlap is at most half the chunk size plus one\<close>

text \<open>
  When \<open>chunk_overlap \<le> chunk_size // 2 + 1\<close>, as in the default configuration
  \<open>(1000, 200)\<close>, a snapped end lies at least \<open>chunk_size // 2 + 2\<close> beyond the
  cursor, so the cursor advances in every round: the loop terminates and the chunks
  start at increasing offsets.
\<close>

lemma chunk_end_advance:
  assumes v: "valid_config self" and lt: "start < int (length doc)" and pos: "0 \<le> start"
  shows "chunk_end self doc start = int (length doc) \<or>
     chunk_end self doc start = start + chunk_size self \<or>
     start + chunk_size self div 2 + 2 \<le> chunk_end self doc start"
proof -
  let ?L = "int (length doc)"
  let ?n = "min (start + chunk_size self) ?L"
  let ?E = "chunk_end self doc start"
  from v have sz: "0 < chunk_size self" by (simp add: valid_config_def)
  consider (keep) "?E = ?n"
    | (none) "start + chunk_size self div 2 < - 1"
    | (brk) bc lb where "bc \<in> set break_chars" "?E = lb + int (length bc)"
        "start + chunk_size self div 2 < lb"
    using chunk_end_cases [of self doc start] by blast
  then show ?thesis
  proof cases
    case keep
    then show ?thesis by (auto simp: min_def)
  next
    case none
    then show ?thesis using sz pos by linarith
  next
    case brk
    have "0 < length bc" using break_chars_length [OF brk(1)] by simp
    with brk show ?thesis by linarith
  qed
qed

lemma chunk_loop_terminates:
  assumes v: "valid_config self"
    and half: "chunk_overlap self \<le> chunk_size self div 2 + 1"
    and pos: "0 \<le> start"
  shows "\<exists>r. chunk_loop self doc src start cid chunks = Some r"
  using pos
proof (induction "nat (int (length doc) - start)" arbitrary: start cid chunks rule: less_induct)
  case less
  from v have sz: "0 < chunk_size self" "0 \<le> chunk_overlap self"
    "chunk_overlap self < chunk_size self"
    by (simp_all add: valid_config_def)
  show ?case
  proof (cases "start < int (length doc)")
    case False
    then show ?thesis by (subst chunk_loop.simps) simp
  next
    case True
    let ?E = "chunk_end self doc start"
    let ?c = "py_strip (py_slice doc start ?E)"
    let ?chunks = "if ?c \<noteq> [] then chunks @ [new_chunk ?c cid src start ?E] else chunks"
    let ?cid = "if ?c \<noteq> [] then cid + 1 else cid"
    show ?thesis
    proof (cases "int (length doc) \<le> ?E - chunk_overlap self \<or> ?E = int (length doc)")
      case exit: True
      have "chunk_loop self doc src start cid chunks = Some ?chunks"
        using True exit by (subst chunk_loop.simps) (simp add: Let_def)
      then show ?thesis by blast
    next
      case cont: False
      from chunk_end_advance [OF v True less.prems] cont half sz
      have adv: "start < ?E - chunk_overlap self" by linarith
      with cont less.prems
      have "nat (int (length doc) - (?E - chunk_overlap self)) < nat (int (length doc) - start)"
        and "0 \<le> ?E - chunk_overlap self"
        by linarith+
      from less.hyps [OF this, of ?cid ?chunks]
      obtain r where "chunk_loop self doc src (?E - chunk_overlap self) ?cid ?chunks = Some r" ..
      moreover have "chunk_loop self doc src start cid chunks =
          chunk_loop self doc src (?E - chunk_overlap self) ?cid ?chunks"
        using True cont by (subst chunk_loop.simps) (simp add: Let_def)
      ultimately show ?thesis by simp
    qed
  qed
qed

lemma chunk_text_terminates:
  assumes "valid_config self" and "chunk_overlap self \<le> chunk_size self div 2 + 1"
  shows "\<exists>cs. chunk_text self doc src = Some cs"
proof (cases "doc = [] \<or> py_strip doc = []")
  case True
  then show ?thesis by (simp add: chunk_text_def)
next
  case False
  from chunk_loop_terminates [OF assms, of 0 "py_strip doc" src 0 "[]"]
  obtain r where "chunk_loop self (py_strip doc) src 0 0 [] = Some r" by auto
  with False show ?thesis by (simp add: chunk_text_def)
qed

lemma chunk_loop_increasing:
  assumes v: "valid_config self"
    and half: "chunk_overlap self \<le> chunk_size self div 2 + 1"
    and run: "chunk_loop self doc src 0 cid0 [] = Some r"
  shows "sorted_wrt (<) (map start_char r)"
proof -
  from v have sz: "0 < chunk_size self" "0 \<le> chunk_overlap self"
    "chunk_overlap self < chunk_size self"
    by (simp_all add: valid_config_def)
  let ?I = "\<lambda>start (cid::int) chunks. 0 \<le> start \<and>
     sorted_wrt (<) (map start_char chunks) \<and> (\<forall>c \<in> set chunks. start_char c < start)"
  show ?thesis
  proof (rule chunk_loop_rule [OF run, where I = ?I and Q = "\<lambda>chunks. sorted_wrt (<) (map start_char chunks)"])
    show "?I 0 cid0 []" by simp
  next
    fix start cid chunks
    assume "?I start cid chunks"
    then show "sorted_wrt (<) (map start_char chunks)" by simp
  next
    fix start cid chunks e c chunks' cid'
    assume I: "?I start cid chunks" and lt: "start < int (length doc)"
      and e: "e = chunk_end self doc start"
      and chunks': "chunks' = (if c \<noteq> [] then chunks @ [new_chunk c cid src start e] else chunks)"
    from I have pos: "0 \<le> start" by simp
    have srt: "sorted_wrt (<) (map start_char chunks')"
      using I chunks' by (auto simp: sorted_wrt_append)
    show "if int (length doc) \<le> e - chunk_overlap self \<or> e = int (length doc)
          then sorted_wrt (<) (map start_char chunks') else ?I (e - chunk_overlap self) cid' chunks'"
    proof (cases "int (length doc) \<le> e - chunk_overlap self \<or> e = int (length doc)")
      case True
      with srt show ?thesis by simp
    next
      case False
      from chunk_end_advance [OF v lt pos] False half sz e
      have adv: "start < e - chunk_overlap self" by linarith
      have "\<forall>c \<in> set chunks'. start_char c < e - chunk_overlap self"
        using I chunks' adv by auto
      with False srt adv pos show ?thesis by simp
    qed
  qed
qed

lemma chunk_text_increasing:
  assumes "valid_config self" and "chunk_overlap self \<le> chunk_size self div 2 + 1"
    and "chunk_text self doc src = Some cs"
  shows "sorted_wrt (<) (map start_char cs)"
proof -
  from chunk_text_cases [OF assms(3)]
  consider "cs = []" | r where "chunk_loop self (py_strip doc) src 0 0 [] = Some r"
    "cs = map (set_total (int (length r))) r"
    by blast
  then show ?thesis
  proof cases
    case 1
    then show ?thesis by simp
  next
    case 2
    have "map start_char cs = map start_char r" using 2(2) by simp
    with chunk_loop_increasing [OF assms(1,2) 2(1)] show ?thesis by simp
  qed
qed

subsection \<open>Termination\<close>

lemma stuck_facts:
  "length doc_stuck = 15"
  "chunk_end cfg_stuck doc_stuck 0 = 7"
  "py_strip (py_slice doc_stuck 0 7) = ''aaaaaa''"
  "py_strip doc_stuck = doc_stuck"
  "chunk_overlap cfg_stuck = 7"
  by code_simp+

lemma stuck_loop:
  assumes "chunk_loop cfg_stuck doc_stuck src 0 cid chunks = Some r"
  shows False
  by (rule chunk_loop_rule [OF assms, where I = "\<lambda>start _ _. start = 0" and Q = "\<lambda>_. False"])
     (simp_all add: stuck_facts)

text \<open>
  Claim C1 says that \<open>chunk_text\<close> terminates for every text whenever
  \<open>chunk_size > 0\<close> and \<open>0 \<le> chunk_overlap < chunk_size\<close>. The code does not: with
  \<open>chunk_size = 10\<close> and \<open>chunk_overlap = 7\<close>, on a text of 15 characters with a line
  feed at offset 6, the first window is cut after the line feed, at \<open>end = 7\<close>, and
  \<open>start = end - chunk_overlap\<close> is \<open>0\<close> again; the exit test only fires when
  \<open>end = len(text)\<close>. The loop appends the same chunk forever, which the model shows
  as the value \<open>None\<close>.
\<close>

theorem chunk_text_diverges:
  "valid_config cfg_stuck \<and> chunk_text cfg_stuck doc_stuck ''s'' = None"
proof -
  have "chunk_loop cfg_stuck doc_stuck ''s'' 0 0 [] = None"
    using stuck_loop by (cases "chunk_loop cfg_stuck doc_stuck ''s'' 0 0 []") auto
  moreover have "doc_stuck \<noteq> []" by (simp add: doc_stuck_def)
  moreover have "valid_config cfg_stuck" by (simp add: valid_config_def cfg_stuck_def)
  ultimately show ?thesis
    by (simp add: chunk_text_def stuck_facts)
qed

subsection \<open>Order of the chunks\<close>

text \<open>
  Claim C2 says that the returned chunks have strictly increasing \<open>start_char\<close> and
  that \<open>chunk_id\<close> is the position in the returned sequence. The code breaks the first
  part on a run that terminates: with \<open>chunk_size = 30\<close> and \<open>chunk_overlap = 25\<close>,
  on a text of 33 characters with a line feed at offset 16, a full stop and space at 17
  and an exclamation mark and space at 19, the cursor goes \<open>0, -8, -3, 2, -4, 1, -6, -1, 4\<close>
  and the chunks start at \<open>0, 2, 1, 4\<close>. The second part holds on every run
  (\<open>chunk_text_chunk_id\<close>), and the first on the configurations of
  \<open>chunk_text_increasing\<close>.
\<close>

theorem chunk_text_start_char_decreases:
  "valid_config cfg_back \<and>
   map_option (map (\<lambda>c. (chunk_id c, start_char c, end_char c)))
     (chunk_text cfg_back doc_back ''s'') =
   Some [(0, 0, 17), (1, 2, 21), (2, 1, 19), (3, 4, 33)]"
  by code_simp

subsection \<open>Offsets and content\<close>

text \<open>
  Claim C4, as amended: \<open>start_char\<close> and \<open>end_char\<close> of every returned chunk are
  offsets into the whitespace-stripped text \<open>text.strip()\<close>, not into the text as
  passed: the chunk's content is the slice \<open>[start_char, end_char)\<close> of the stripped
  text, itself stripped. For a valid configuration the offsets are 0-indexed positions
  of the stripped text, \<open>0 \<le> start_char < end_char \<le> len(text.strip())\<close>.
\<close>

theorem chunk_text_content_slice:
  assumes "chunk_text self doc src = Some cs" and "c \<in> set cs"
  shows "content c = py_strip (py_slice (py_strip doc) (start_char c) (end_char c)) \<and>
     (valid_config self \<longrightarrow>
        0 \<le> start_char c \<and> start_char c < end_char c \<and>
        end_char c \<le> int (length (py_strip doc)))"
proof -
  from chunk_text_cases [OF assms(1)] assms(2)
  obtain r where run: "chunk_loop self (py_strip doc) src 0 0 [] = Some r"
    and cs: "cs = map (set_total (int (length r))) r"
    by auto
  have "\<forall>c \<in> set r. content c = py_strip (py_slice (py_strip doc) (start_char c) (end_char c))"
    by (rule chunk_loop_chunks [OF run]) simp_all
  moreover have "valid_config self \<longrightarrow> (\<forall>c \<in> set r. 0 \<le> start_char c \<and>
      start_char c < end_char c \<and> end_char c \<le> int (length (py_strip doc)))"
    using chunk_loop_offsets [OF _ run] by blast
  ultimately show ?thesis using cs assms(2) by auto
qed

theorem chunk_text_content_slice_witness:
  "valid_config cfg_short \<and>
   chunk_text cfg_short doc_short ''s'' = Some chunks_short \<and>
   chunks_short ! 1 \<in> set chunks_short \<and>
   content (chunks_short ! 1) =
     py_strip (py_slice (py_strip doc_short) (start_char (chunks_short ! 1))
       (end_char (chunks_short ! 1))) \<and>
   0 \<le> start_char (chunks_short ! 1) \<and>
   start_char (chunks_short ! 1) < end_char (chunks_short ! 1) \<and>
   end_char (chunks_short ! 1) \<le> int (length (py_strip doc_short))"
  using chunk_text_content_slice [OF chunk_text_short chunks_short_mem]
    cfg_short_valid chunk_text_short chunks_short_mem
  by blast

text \<open>
  The claim as the specification words it, with offsets into the text as passed, fails
  on a text with leading whitespace: the first chunk of \<open>doc_short\<close> has the offsets
  \<open>0\<close> and \<open>14\<close>, and the slice \<open>[0, 14)\<close> of the unstripped text is two spaces and
  \<open>Sentence one\<close> without its full stop.
\<close>

theorem chunk_text_offsets_original_counterexample:
  "chunk_text cfg_short doc_short ''s'' = Some chunks_short \<and>
   chunks_short ! 0 \<in> set chunks_short \<and>
   content (chunks_short ! 0) \<noteq>
     py_strip (py_slice doc_short (start_char (chunks_short ! 0)) (end_char (chunks_short ! 0)))"
  by code_simp

subsection \<open>The chunk count in the metadata\<close>

text \<open>
  Claim C5: in the sequence returned by \<open>chunk_text\<close>, every chunk's metadata entry
  \<open>total_chunks\<close> is the length of the returned sequence.
\<close>

theorem chunk_text_total_chunks:
  assumes "chunk_text self doc src = Some cs" and "c \<in> set cs"
  shows "map_of (metadata c) ''total_chunks'' = Some (int (length cs))"
proof -
  from chunk_text_cases [OF assms(1)] assms(2)
  obtain r where cs: "cs = map (set_total (int (length r))) r"
    by auto
  with assms(2) obtain c' where "c = set_total (int (length r)) c'" by auto
  then show ?thesis using cs by (simp add: set_total_def update_conv')
qed

theorem chunk_text_total_chunks_witness:
  "chunk_text cfg_short doc_short ''s'' = Some chunks_short \<and>
   chunks_short ! 1 \<in> set chunks_short \<and>
   map_of (metadata (chunks_short ! 1)) ''total_chunks'' = Some (int (length chunks_short))"
  by (intro conjI chunk_text_short chunks_short_mem
        chunk_text_total_chunks [OF chunk_text_short chunks_short_mem])

subsection \<open>Size of a chunk\<close>

text \<open>
  Claim C10: for a valid configuration, every chunk returned by \<open>chunk_text\<close> has a
  content that is not empty after stripping whitespace and that has at most
  \<open>chunk_size\<close> characters.
\<close>

theorem chunk_text_content_bounded:
  assumes "valid_config self" and "chunk_text self doc src = Some cs" and "c \<in> set cs"
  shows "py_strip (content c) \<noteq> [] \<and> int (length (content c)) \<le> chunk_size self"
proof -
  from assms(1) have pos: "0 < chunk_size self" by (simp add: valid_config_def)
  from chunk_text_cases [OF assms(2)] assms(3)
  obtain r where run: "chunk_loop self (py_strip doc) src 0 0 [] = Some r"
    and cs: "cs = map (set_total (int (length r))) r"
    by auto
  have "\<forall>c \<in> set r. py_strip (content c) \<noteq> [] \<and> int (length (content c)) \<le> chunk_size self"
    by (rule chunk_loop_chunks [OF run]) (simp_all add: py_strip_idem chunk_content_length [OF pos])
  with cs assms(3) show ?thesis by auto
qed

theorem chunk_text_content_bounded_witness:
  "valid_config cfg_short \<and>
   chunk_text cfg_short doc_short ''s'' = Some chunks_short \<and>
   chunks_short ! 1 \<in> set chunks_short \<and>
   py_strip (content (chunks_short ! 1)) \<noteq> [] \<and>
   int (length (content (chunks_short ! 1))) \<le> chunk_size cfg_short"
  by (intro conjI cfg_short_valid chunk_text_short chunks_short_mem
        conjunct1 [OF chunk_text_content_bounded [OF cfg_short_valid chunk_text_short chunks_short_mem]]
        conjunct2 [OF chunk_text_content_bounded [OF cfg_short_valid chunk_text_short chunks_short_mem]])

section \<open>Properties of the embedder\<close>


lemma scatter_result:
  assumes "\<forall>idx \<in> set idxs. idx < length result" and "i0 + length idxs \<le> length emb"
    and "distinct idxs"
  shows "\<exists>r. scatter (List.enumerate i0 idxs) emb result = Inr r \<and> length r = length result \<and>
     (\<forall>j < length idxs. r ! (idxs ! j) = emb ! (i0 + j)) \<and>
     (\<forall>k. k \<notin> set idxs \<longrightarrow> r ! k = result ! k)"
  using assms
proof (induction idxs arbitrary: i0 result)
  case Nil
  then show ?case by simp
next
  case (Cons x xs)
  let ?res = "result[x := emb ! i0]"
  have "\<forall>idx \<in> set xs. idx < length ?res" "Suc i0 + length xs \<le> length emb" "distinct xs"
    using Cons.prems by auto
  from Cons.IH [OF this]
  obtain r where r: "scatter (List.enumerate (Suc i0) xs) emb ?res = Inr r"
    "length r = length ?res"
    "\<forall>j < length xs. r ! (xs ! j) = emb ! (Suc i0 + j)"
    "\<forall>k. k \<notin> set xs \<longrightarrow> r ! k = ?res ! k"
    by blast
  have x: "x < length result" "i0 < length emb" "x \<notin> set xs" using Cons.prems by auto
  have "scatter (List.enumerate i0 (x # xs)) emb result = Inr r"
    using r(1) x by simp
  moreover have "length r = length result" using r(2) by simp
  moreover have "\<forall>j < length (x # xs). r ! ((x # xs) ! j) = emb ! (i0 + j)"
  proof (intro allI impI)
    fix j assume "j < length (x # xs)"
    then show "r ! ((x # xs) ! j) = emb ! (i0 + j)"
      using r(3,4) x by (cases j) auto
  qed
  moreover have "\<forall>k. k \<notin> set (x # xs) \<longrightarrow> r ! k = result ! k"
    using r(4) by auto
  ultimately show ?case by blast
qed

lemma valid_texts_eq:
  "map snd (filter (\<lambda>(i, t). P t) (List.enumerate n xs)) = filter P xs"
  by (induction xs arbitrary: n) auto

lemma valid_indices_set:
  "set (map fst (filter (\<lambda>(i, t). P t) (List.enumerate n xs))) =
     {n + i | i. i < length xs \<and> P (xs ! i)}"
proof (induction xs arbitrary: n)
  case Nil
  then show ?case by simp
next
  case (Cons x xs)
  have "{n + i | i. i < length (x # xs) \<and> P ((x # xs) ! i)} =
        (if P x then {n} else {}) \<union> {Suc n + i | i. i < length xs \<and> P (xs ! i)}"
    by (auto simp: less_Suc_eq_0_disj)
  then show ?case using Cons.IH [of "Suc n"] by auto
qed

lemma valid_indices_distinct:
  "distinct (map fst (filter (\<lambda>(i, t). P t) (List.enumerate n xs)))"
proof (induction xs arbitrary: n)
  case Nil
  then show ?case by simp
next
  case (Cons x xs)
  then show ?case using valid_indices_set [of P "Suc n" xs] by auto
qed

lemma valid_indices_nth:
  assumes "i < length xs" and "P (xs ! i)"
  shows "length (filter P (take i xs)) < length (filter P xs) \<and>
     map fst (filter (\<lambda>(i, t). P t) (List.enumerate n xs)) ! length (filter P (take i xs)) = n + i"
  using assms
proof (induction xs arbitrary: n i)
  case Nil
  then show ?case by simp
next
  case (Cons x xs)
  show ?case
  proof (cases i)
    case 0
    with Cons.prems show ?thesis by simp
  next
    case (Suc i')
    with Cons.prems have "i' < length xs" "P (xs ! i')" by auto
    from Cons.IH [OF this, of "Suc n"] Suc show ?thesis by auto
  qed
qed

lemma valid_empty_iff:
  "filter (\<lambda>(i, t). P t) (List.enumerate n xs) = [] \<longleftrightarrow> filter P xs = []"
  using valid_texts_eq [of P n xs] by (metis map_is_Nil_conv)

text \<open>
  Claim C3: \<open>embed_batch(texts)\<close> returns a list as long as \<open>texts\<close>; a position
  whose text is empty or whitespace holds the empty vector; every other position holds
  a non-empty vector, namely the row that the model returned for that text: the row
  whose number is the count of non-blank texts before the position. The model is the
  external capability; the theorem takes its contract as the hypothesis: called on the
  non-blank texts it returns one non-empty row for each.
\<close>

theorem embed_batch_positions:
  assumes model: "filter nonblank texts \<noteq> [] \<Longrightarrow>
      encode_many self (filter nonblank texts) = Inr rows \<and>
      length rows = length (filter nonblank texts) \<and> (\<forall>row \<in> set rows. row \<noteq> [])"
  shows "\<exists>r. embed_batch self texts = Inr r \<and> length r = length texts \<and>
     (\<forall>i < length texts.
        (\<not> nonblank (texts ! i) \<longrightarrow> r ! i = []) \<and>
        (nonblank (texts ! i) \<longrightarrow>
           r ! i \<noteq> [] \<and> r ! i = rows ! length (filter nonblank (take i texts))))"
proof (cases "filter nonblank texts = []")
  case True
  then have blank: "\<forall>i < length texts. \<not> nonblank (texts ! i)"
    by (auto simp: filter_empty_conv)
  have "embed_batch self texts = Inr (map (\<lambda>_. []) texts)"
    using True by (simp add: embed_batch_def Let_def valid_texts_eq valid_empty_iff)
  with blank show ?thesis by simp
next
  case False
  let ?idxs = "map fst (filter (\<lambda>(i, t). nonblank t) (List.enumerate 0 texts))"
  let ?init = "map (\<lambda>_. []) texts :: 'a list list"
  from model [OF False] have enc: "encode_many self (filter nonblank texts) = Inr rows"
    and len: "length rows = length (filter nonblank texts)"
    and rows: "\<forall>row \<in> set rows. row \<noteq> []"
    by simp_all
  have set_idxs: "set ?idxs = {i. i < length texts \<and> nonblank (texts ! i)}"
    using valid_indices_set [of nonblank 0 texts] by simp
  have len_idxs: "length ?idxs = length (filter nonblank texts)"
    using valid_texts_eq [of nonblank 0 texts] by (metis length_map)
  have "\<forall>idx \<in> set ?idxs. idx < length ?init" using set_idxs by simp
  moreover have "0 + length ?idxs \<le> length rows" using len len_idxs by simp
  moreover have "distinct ?idxs" by (rule valid_indices_distinct)
  ultimately obtain r where r: "scatter (List.enumerate 0 ?idxs) rows ?init = Inr r"
    "length r = length ?init"
    "\<forall>j < length ?idxs. r ! (?idxs ! j) = rows ! (0 + j)"
    "\<forall>k. k \<notin> set ?idxs \<longrightarrow> r ! k = ?init ! k"
    using scatter_result [of ?idxs ?init 0 rows] by blast
  have texts: "texts \<noteq> []" using False by auto
  have res: "embed_batch self texts = Inr r"
    using False texts enc r(1) by (simp add: embed_batch_def Let_def valid_texts_eq valid_empty_iff)
  have "\<forall>i < length texts.
        (\<not> nonblank (texts ! i) \<longrightarrow> r ! i = []) \<and>
        (nonblank (texts ! i) \<longrightarrow>
           r ! i \<noteq> [] \<and> r ! i = rows ! length (filter nonblank (take i texts)))"
  proof (intro allI impI conjI)
    fix i assume i: "i < length texts" and "\<not> nonblank (texts ! i)"
    then have "i \<notin> set ?idxs" using set_idxs by simp
    with r(4) i show "r ! i = []" by simp
  next
    fix i assume i: "i < length texts" and nb: "nonblank (texts ! i)"
    let ?j = "length (filter nonblank (take i texts))"
    from valid_indices_nth [of i texts nonblank 0, OF i nb]
    have j: "?j < length (filter nonblank texts)" "?idxs ! ?j = i" by simp_all
    with r(3) len_idxs have eq: "r ! i = rows ! ?j" by (metis add_0)
    from j len have "rows ! ?j \<in> set rows" by simp
    with rows eq show "r ! i \<noteq> []" by simp
    from eq show "r ! i = rows ! ?j" .
  qed
  moreover have "length r = length texts" using r(2) by simp
  ultimately show ?thesis using res by blast
qed

lemma texts_demo_valid: "filter nonblank texts_demo = [''hello world'', ''abc'']"
  by code_simp

theorem embed_batch_positions_witness:
  "\<exists>r. embed_batch embedder_demo texts_demo = Inr r \<and> length r = 4 \<and>
     r ! 0 = [] \<and> r ! 1 = [11, 1] \<and> r ! 2 = [] \<and> r ! 3 = [3, 1]"
proof -
  have m: "filter nonblank texts_demo \<noteq> [] \<Longrightarrow>
      encode_many embedder_demo (filter nonblank texts_demo) = Inr [[11, 1], [3, 1]] \<and>
      length [[11, 1], [3, 1 :: nat]] = length (filter nonblank texts_demo) \<and>
      (\<forall>row \<in> set [[11, 1], [3, 1 :: nat]]. row \<noteq> [])"
    by (simp add: texts_demo_valid embedder_demo_def)
  from embed_batch_positions [of texts_demo embedder_demo "[[11, 1], [3, 1]]", OF m]
  obtain r where r: "embed_batch embedder_demo texts_demo = Inr r" "length r = length texts_demo"
    and pos: "\<forall>i < length texts_demo.
        (\<not> nonblank (texts_demo ! i) \<longrightarrow> r ! i = []) \<and>
        (nonblank (texts_demo ! i) \<longrightarrow>
           r ! i \<noteq> [] \<and>
           r ! i = [[11, 1], [3, 1]] ! length (filter nonblank (take i texts_demo)))"
    by blast
  have nb: "\<not> nonblank (texts_demo ! 0)" "nonblank (texts_demo ! 1)"
    "\<not> nonblank (texts_demo ! 2)" "nonblank (texts_demo ! 3)"
    "length (filter nonblank (take 1 texts_demo)) = 0"
    "length (filter nonblank (take 3 texts_demo)) = 1"
    "length texts_demo = 4"
    by code_simp+
  from pos [rule_format, of 0] pos [rule_format, of 1] pos [rule_format, of 2]
    pos [rule_format, of 3] nb
  have "r ! 0 = []" "r ! 1 = [11, 1]" "r ! 2 = []" "r ! 3 = [3, 1]" by simp_all
  with r nb(7) show ?thesis by auto
qed

section \<open>Properties of the vector store\<close>

lemma store_get_index_client:
  "store_get_index self w = (r, self', w') \<Longrightarrow> client self' = client self"
  by (auto simp: store_get_index_def split: option.splits prod.splits sum.splits)

lemma world_after_Cons:
  "world_after cl h (b # bs) w = world_after cl h bs (snd (index_upsert cl h b w))"
  by (simp add: world_after_def)

lemma world_after_Nil: "world_after cl h [] w = w"
  by (simp add: world_after_def)

lemma upsert_batches_run:
  "\<exists>r sent w'. upsert_batches cl h vectors n0 w = (r, sent, w') \<and>
     ((r = Inr (n0 + int (length vectors)) \<and> concat sent = vectors \<and>
       (\<forall>k < length sent.
          fst (index_upsert cl h (sent ! k) (world_after cl h (take k sent) w)) = Inr ())) \<or>
      (\<exists>e. r = Inl e \<and> sent \<noteq> [] \<and>
          fst (index_upsert cl h (last sent) (world_after cl h (butlast sent) w)) = Inl e))"
proof (induction "length vectors" arbitrary: vectors n0 w rule: less_induct)
  case less
  show ?case
  proof (cases "vectors = []")
    case True
    then show ?thesis by (simp add: upsert_batches.simps)
  next
    case False
    let ?b = "take 100 vectors"
    obtain o1 w1 where up: "index_upsert cl h ?b w = (o1, w1)"
      by (cases "index_upsert cl h ?b w")
    show ?thesis
    proof (cases o1)
      case (Inl e)
      have "upsert_batches cl h vectors n0 w = (Inl e, [?b], w1)"
        using False up Inl by (subst upsert_batches.simps) simp
      moreover have "fst (index_upsert cl h (last [?b]) (world_after cl h (butlast [?b]) w)) = Inl e"
        using up Inl by (simp add: world_after_Nil)
      ultimately show ?thesis by blast
    next
      case (Inr u)
      have "length (drop 100 vectors) < length vectors" using False by simp
      from less [OF this, of "n0 + int (length ?b)" w1]
      obtain r sent w' where rest:
        "upsert_batches cl h (drop 100 vectors) (n0 + int (length ?b)) w1 = (r, sent, w')"
        and alt: "(r = Inr (n0 + int (length ?b) + int (length (drop 100 vectors))) \<and>
            concat sent = drop 100 vectors \<and>
            (\<forall>k < length sent.
               fst (index_upsert cl h (sent ! k) (world_after cl h (take k sent) w1)) = Inr ())) \<or>
           (\<exists>e. r = Inl e \<and> sent \<noteq> [] \<and>
               fst (index_upsert cl h (last sent) (world_after cl h (butlast sent) w1)) = Inl e)"
        by blast
      have run: "upsert_batches cl h vectors n0 w = (r, ?b # sent, w')"
        using False up Inr rest by (subst upsert_batches.simps) simp
      have w1: "snd (index_upsert cl h ?b w) = w1" using up by simp
      have first: "fst (index_upsert cl h ?b w) = Inr ()" using up Inr by simp
      from alt show ?thesis
      proof
        assume ok: "r = Inr (n0 + int (length ?b) + int (length (drop 100 vectors))) \<and>
            concat sent = drop 100 vectors \<and>
            (\<forall>k < length sent.
               fst (index_upsert cl h (sent ! k) (world_after cl h (take k sent) w1)) = Inr ())"
        have "int (length ?b) + int (length (drop 100 vectors)) = int (length vectors)"
          by (metis append_take_drop_id length_append of_nat_add)
        with ok have r: "r = Inr (n0 + int (length vectors))" by simp
        have c: "concat (?b # sent) = vectors" using ok by simp
        have "\<forall>k < length (?b # sent).
            fst (index_upsert cl h ((?b # sent) ! k) (world_after cl h (take k (?b # sent)) w)) = Inr ()"
        proof (intro allI impI)
          fix k assume "k < length (?b # sent)"
          then show "fst (index_upsert cl h ((?b # sent) ! k)
              (world_after cl h (take k (?b # sent)) w)) = Inr ()"
            using ok first w1 by (cases k) (simp_all add: world_after_Nil world_after_Cons)
        qed
        with run r c show ?thesis by blast
      next
        assume "\<exists>e. r = Inl e \<and> sent \<noteq> [] \<and>
               fst (index_upsert cl h (last sent) (world_after cl h (butlast sent) w1)) = Inl e"
        then obtain e where e: "r = Inl e" "sent \<noteq> []"
          "fst (index_upsert cl h (last sent) (world_after cl h (butlast sent) w1)) = Inl e"
          by blast
        have "fst (index_upsert cl h (last (?b # sent)) (world_after cl h (butlast (?b # sent)) w)) = Inl e"
          using e w1 by (simp add: world_after_Cons)
        with run e(1) show ?thesis by blast
      qed
    qed
  qed
qed

lemma make_records_nth:
  assumes "length chunks = length embeddings" and "i < length chunks"
  shows "rec_id (map (\<lambda>(chunk, embedding). make_record chunk embedding) (zip chunks embeddings) ! i) =
     source (chunks ! i) @ ''_chunk_'' @ str_int (chunk_id (chunks ! i))"
  using assms by (simp add: make_record_def)

text \<open>
  Claim C6, as amended: \<open>upsert_chunks\<close> raises the validation error whenever the two
  lengths differ. When they are equal and the index handle is resolved (it is cached, or
  the client's \<open>get_index\<close> returns it), the run ends in one of two ways. Either a
  batch that the method sent was refused, and the exception of that send, the last one
  made, is raised (the second alternative below); or every send made has succeeded,
  and then the method returns the number of chunks, and the records sent, batch
  after batch, are one per chunk, in order, the record of a chunk having the id
  \<open>{source}_chunk_{chunk_id}\<close>. The sends are those of this run, each in the world
  the sends before it have left. With no chunk nothing is sent and \<open>0\<close> is returned.
\<close>

theorem upsert_chunks_spec:
  "(length chunks \<noteq> length embeddings \<longrightarrow>
      fst (upsert_chunks self chunks embeddings w) =
        Inl (ValueError ''Number of chunks and embeddings must match'')) \<and>
   (length chunks = length embeddings \<longrightarrow> chunks = [] \<longrightarrow>
      upsert_chunks self chunks embeddings w = (Inr (int (length chunks)), [], self, w)) \<and>
   (length chunks = length embeddings \<longrightarrow> chunks \<noteq> [] \<longrightarrow>
    store_get_index self w = (Inr h, self1, w1) \<longrightarrow>
      (\<exists>r sent w'.
          upsert_chunks self chunks embeddings w = (r, sent, self1, w') \<and>
          ((r = Inr (int (length chunks)) \<and>
            length (concat sent) = length chunks \<and>
            (\<forall>i < length chunks.
               rec_id (concat sent ! i) =
                 source (chunks ! i) @ ''_chunk_'' @ str_int (chunk_id (chunks ! i))) \<and>
            (\<forall>k < length sent.
               fst (index_upsert (client self) h (sent ! k)
                      (world_after (client self) h (take k sent) w1)) = Inr ())) \<or>
           (\<exists>e. r = Inl e \<and> sent \<noteq> [] \<and>
               fst (index_upsert (client self) h (last sent)
                      (world_after (client self) h (butlast sent) w1)) = Inl e))))"
proof (intro conjI impI)
  assume "length chunks \<noteq> length embeddings"
  then show "fst (upsert_chunks self chunks embeddings w) =
      Inl (ValueError ''Number of chunks and embeddings must match'')"
    by (simp add: upsert_chunks_def)
next
  assume "length chunks = length embeddings" and "chunks = []"
  then show "upsert_chunks self chunks embeddings w = (Inr (int (length chunks)), [], self, w)"
    by (simp add: upsert_chunks_def)
next
  assume len: "length chunks = length embeddings" and ne: "chunks \<noteq> []"
    and get: "store_get_index self w = (Inr h, self1, w1)"
  let ?vectors = "map (\<lambda>(chunk, embedding). make_record chunk embedding) (zip chunks embeddings)"
  have cl: "client self1 = client self" by (rule store_get_index_client [OF get])
  from upsert_batches_run [of "client self" h ?vectors 0 w1]
  obtain r sent w' where run: "upsert_batches (client self) h ?vectors 0 w1 = (r, sent, w')"
    and alt: "(r = Inr (0 + int (length ?vectors)) \<and> concat sent = ?vectors \<and>
       (\<forall>k < length sent.
          fst (index_upsert (client self) h (sent ! k)
                 (world_after (client self) h (take k sent) w1)) = Inr ())) \<or>
      (\<exists>e. r = Inl e \<and> sent \<noteq> [] \<and>
          fst (index_upsert (client self) h (last sent)
                 (world_after (client self) h (butlast sent) w1)) = Inl e)"
    by blast
  have res: "upsert_chunks self chunks embeddings w = (r, sent, self1, w')"
    using len ne get cl run by (simp add: upsert_chunks_def)
  from alt have "(r = Inr (int (length chunks)) \<and>
            length (concat sent) = length chunks \<and>
            (\<forall>i < length chunks.
               rec_id (concat sent ! i) =
                 source (chunks ! i) @ ''_chunk_'' @ str_int (chunk_id (chunks ! i))) \<and>
            (\<forall>k < length sent.
               fst (index_upsert (client self) h (sent ! k)
                      (world_after (client self) h (take k sent) w1)) = Inr ())) \<or>
           (\<exists>e. r = Inl e \<and> sent \<noteq> [] \<and>
               fst (index_upsert (client self) h (last sent)
                      (world_after (client self) h (butlast sent) w1)) = Inl e)"
  proof
    assume ok: "r = Inr (0 + int (length ?vectors)) \<and> concat sent = ?vectors \<and>
       (\<forall>k < length sent.
          fst (index_upsert (client self) h (sent ! k)
                 (world_after (client self) h (take k sent) w1)) = Inr ())"
    then have "r = Inr (int (length chunks))" using len by simp
    moreover have "length (concat sent) = length chunks" using ok len by simp
    moreover have "\<forall>i < length chunks.
        rec_id (concat sent ! i) = source (chunks ! i) @ ''_chunk_'' @ str_int (chunk_id (chunks ! i))"
      using make_records_nth [OF len] ok by simp
    ultimately show ?thesis using ok by blast
  next
    assume "\<exists>e. r = Inl e \<and> sent \<noteq> [] \<and>
          fst (index_upsert (client self) h (last sent)
                 (world_after (client self) h (butlast sent) w1)) = Inl e"
    then show ?thesis by blast
  qed
  with res show "\<exists>r sent w'.
          upsert_chunks self chunks embeddings w = (r, sent, self1, w') \<and>
          ((r = Inr (int (length chunks)) \<and>
            length (concat sent) = length chunks \<and>
            (\<forall>i < length chunks.
               rec_id (concat sent ! i) =
                 source (chunks ! i) @ ''_chunk_'' @ str_int (chunk_id (chunks ! i))) \<and>
            (\<forall>k < length sent.
               fst (index_upsert (client self) h (sent ! k)
                      (world_after (client self) h (take k sent) w1)) = Inr ())) \<or>
           (\<exists>e. r = Inl e \<and> sent \<noteq> [] \<and>
               fst (index_upsert (client self) h (last sent)
                      (world_after (client self) h (butlast sent) w1)) = Inl e))"
    by blast
qed

lemma store_up_sends: "fst (index_upsert (client store_up) ''cs_interview_docs'' b w') = Inr ()"
  by (simp add: store_up_def client_up_def)

lemma store_up_get:
  "store_get_index store_up 0 =
     (Inr ''cs_interview_docs'', store_up\<lparr>cached_index := Some ''cs_interview_docs''\<rparr>, 0)"
  by (simp add: store_get_index_def store_up_def client_up_def)

lemma chunks_short_lengths:
  "length chunks_short \<noteq> length [[1::nat]]"
  "length chunks_short = length embeddings_short"
  "chunks_short \<noteq> []"
  by (simp_all add: chunks_short_def embeddings_short_def)

lemma chunk_1_id:
  "source (chunks_short ! 1) @ ''_chunk_'' @ str_int (chunk_id (chunks_short ! 1)) = ''s_chunk_1''"
  by code_simp

theorem upsert_chunks_spec_witness:
  "(length chunks_short \<noteq> length [[1::nat]] \<and>
    fst (upsert_chunks store_up chunks_short [[1]] 0) =
      Inl (ValueError ''Number of chunks and embeddings must match'')) \<and>
   (length chunks_short = length embeddings_short \<and> chunks_short \<noteq> [] \<and>
    store_get_index store_up 0 =
      (Inr ''cs_interview_docs'', store_up\<lparr>cached_index := Some ''cs_interview_docs''\<rparr>, 0) \<and>
    (\<exists>sent w'.
        upsert_chunks store_up chunks_short embeddings_short 0 =
          (Inr 3, sent, store_up\<lparr>cached_index := Some ''cs_interview_docs''\<rparr>, w') \<and>
        length (concat sent) = 3 \<and>
        rec_id (concat sent ! 1) = ''s_chunk_1''))"
proof -
  note a = upsert_chunks_spec [of chunks_short "[[1]]" store_up 0, THEN conjunct1, rule_format,
      OF chunks_short_lengths(1)]
  note b = upsert_chunks_spec [of chunks_short embeddings_short store_up 0,
      THEN conjunct2, THEN conjunct2, rule_format,
      OF chunks_short_lengths(2) chunks_short_lengths(3) store_up_get]
  from b obtain r sent w' where
    res: "upsert_chunks store_up chunks_short embeddings_short 0 =
        (r, sent, store_up\<lparr>cached_index := Some ''cs_interview_docs''\<rparr>, w')"
    and alt: "(r = Inr (int (length chunks_short)) \<and>
        length (concat sent) = length chunks_short \<and>
        (\<forall>i < length chunks_short.
           rec_id (concat sent ! i) =
             source (chunks_short ! i) @ ''_chunk_'' @ str_int (chunk_id (chunks_short ! i))) \<and>
        (\<forall>k < length sent.
           fst (index_upsert (client store_up) ''cs_interview_docs'' (sent ! k)
                  (world_after (client store_up) ''cs_interview_docs'' (take k sent) 0)) = Inr ())) \<or>
       (\<exists>e. r = Inl e \<and> sent \<noteq> [] \<and>
           fst (index_upsert (client store_up) ''cs_interview_docs'' (last sent)
                  (world_after (client store_up) ''cs_interview_docs'' (butlast sent) 0)) = Inl e)"
    by blast
  have l3: "length chunks_short = 3" by (simp add: chunks_short_def)
  from alt store_up_sends have ok: "r = Inr (int (length chunks_short))"
    "length (concat sent) = length chunks_short"
    "\<forall>i < length chunks_short.
           rec_id (concat sent ! i) =
             source (chunks_short ! i) @ ''_chunk_'' @ str_int (chunk_id (chunks_short ! i))"
    by auto
  from ok(3) [rule_format, of 1] l3 chunk_1_id have "rec_id (concat sent ! 1) = ''s_chunk_1''"
    by simp
  with res ok(1,2) l3 have "\<exists>sent w'.
        upsert_chunks store_up chunks_short embeddings_short 0 =
          (Inr 3, sent, store_up\<lparr>cached_index := Some ''cs_interview_docs''\<rparr>, w') \<and>
        length (concat sent) = 3 \<and>
        rec_id (concat sent ! 1) = ''s_chunk_1''"
    by auto
  with a chunks_short_lengths store_up_get show ?thesis by blast
qed

text \<open>
  The claim without the condition on the handle fails: with no cached handle and a
  client whose \<open>get_index\<close> raises, the lengths are equal and no batch is sent, so no
  send fails, and yet \<open>upsert_chunks\<close> raises.
\<close>

theorem upsert_chunks_unresolved_counterexample:
  "length chunks_short = length embeddings_short \<and>
   fst (upsert_chunks store_down chunks_short embeddings_short 0) =
     Inl (ExternalError ''connection refused'') \<and>
   fst (snd (upsert_chunks store_down chunks_short embeddings_short 0)) = []"
  by (simp add: upsert_chunks_def store_get_index_def store_down_def store_up_def
      client_down_def client_up_def chunks_short_def embeddings_short_def)

text \<open>
  Claim C7, as amended: \<open>delete_index\<close> never raises, even when the external delete
  call fails. After a call whose external delete succeeded the cached index handle is
  unresolved (\<open>None\<close>); after a call whose external delete failed the store, its
  cached handle included, is as it was before the call.
\<close>

theorem delete_index_spec:
  "fst (delete_index self w) = Inr () \<and>
   (fst (client_delete_index (client self) (index_name self) w) = Inr () \<longrightarrow>
      cached_index (fst (snd (delete_index self w))) = None) \<and>
   (\<forall>e. fst (client_delete_index (client self) (index_name self) w) = Inl e \<longrightarrow>
      fst (snd (delete_index self w)) = self)"
  by (auto simp: delete_index_def split: prod.splits sum.splits)

theorem delete_index_spec_witness:
  "(fst (client_delete_index (client store_up) (index_name store_up) 0) = Inr () \<and>
    cached_index (fst (snd (delete_index store_up 0))) = None) \<and>
   (fst (client_delete_index (client store_down_cached) (index_name store_down_cached) 0) =
      Inl (ExternalError ''connection refused'') \<and>
    fst (snd (delete_index store_down_cached 0)) = store_down_cached)"
proof -
  have a: "fst (client_delete_index (client store_up) (index_name store_up) 0) = Inr ()"
    by (simp add: store_up_def client_up_def)
  have b: "fst (client_delete_index (client store_down_cached) (index_name store_down_cached) 0) =
      Inl (ExternalError ''connection refused'')"
    by (simp add: store_down_cached_def store_down_def store_up_def client_down_def client_up_def)
  from delete_index_spec [of store_up 0, THEN conjunct2, THEN conjunct1, rule_format, OF a]
    delete_index_spec [of store_down_cached 0, THEN conjunct2, THEN conjunct2, rule_format, OF b]
    a b
  show ?thesis by blast
qed

text \<open>
  The claim as the specification words it fails when the external delete fails while a
  handle is cached: the assignment \<open>self._index = None\<close> stands after the client's call
  inside the \<open>try\<close>, so the exception skips it and the handle stays.
\<close>

theorem delete_index_keeps_handle_counterexample:
  "fst (client_delete_index (client store_down_cached) (index_name store_down_cached) 0) =
     Inl (ExternalError ''connection refused'') \<and>
   fst (delete_index store_down_cached 0) = Inr () \<and>
   cached_index (fst (snd (delete_index store_down_cached 0))) = Some ''cs_interview_docs''"
  by (simp add: delete_index_def store_down_cached_def store_down_def store_up_def
      client_down_def client_up_def)

section \<open>Properties of the pipeline\<close>












text \<open>
  Claim C9: when loading the directory gives no document, \<open>ingest_documents\<close> returns
  \<open>0\<close> and raises nothing; the pipeline with its vector store, the cached handle
  included, and the world outside are as before the call, whatever the client does on
  a call: no call to it is made.
\<close>

theorem ingest_documents_empty:
  assumes "load_directory fs directory = Inr []"
  shows "ingest_documents self fs directory recreate_index w = Some (Inr 0, self, w)"
  using assms by (simp add: ingest_documents_def)

lemma fs_empty_loads: "load_directory fs_empty ''docs'' = Inr []"
  by (simp add: load_directory_def fs_empty_def)

theorem ingest_documents_empty_witness:
  "load_directory fs_empty ''docs'' = Inr [] \<and>
   ingest_documents pipe_demo fs_empty ''docs'' True 0 = Some (Inr 0, pipe_demo, 0)"
  by (intro conjI fs_empty_loads ingest_documents_empty [OF fs_empty_loads])

end
